theory Spec2Isabelle
  imports Main "HOL-Library.Word"
begin

unbundle bit_operations_syntax

section \<open>Data model\<close>

text \<open>
  The codec of \<^verbatim>\<open>src/lens_format/core.pyx\<close> (the first module of that file, lines 1-339:
  \<^verbatim>\<open>FastEncoder\<close>, \<^verbatim>\<open>DecodeFrame\<close>, \<^verbatim>\<open>FastDecoder\<close> with its 32-entry frame pool).
  C integers are words of their width; \<^verbatim>\<open>Py_ssize_t\<close> values are read from a 64-bit
  word with \<open>sint\<close>. Python objects are values of \<open>pyobj\<close>.
\<close>

type_synonym byte = "8 word"
type_synonym uint64_t = "64 word"
type_synonym int64_t = "64 word"

text \<open>
  Python objects as far as the codec looks at them.
  \<^item> \<open>PyInt\<close> is Python's unbounded integer.
  \<^item> \<open>PyFloat\<close> holds the IEEE-754 bit pattern of the double (the codec only copies it).
  \<^item> \<open>PyStr\<close> holds the string as its UTF-8 code units (one \<open>char\<close> per byte).
  \<^item> \<open>PyDatetime\<close> holds an aware instant as microseconds since the epoch.
  \<^item> \<open>PyDict\<close> is an association list in insertion order; \<open>PySet\<close> lists the
    elements in iteration order.
  \<^item> \<open>PyMemoryView\<close> is a slice of the input buffer, held by its content.
  \<^item> \<open>PyObject\<close> is an object of any other type, told apart by a number.
  \<^item> \<open>PyNULL\<close> is the NULL slot of a list or tuple fresh from \<^verbatim>\<open>PyList_New\<close> or
    \<^verbatim>\<open>PyTuple_New\<close>; it is not a Python value.
\<close>

datatype pyobj =
    PyNone
  | PyBool bool
  | PyInt int
  | PyFloat "64 word"
  | PyStr string
  | PyDatetime int
  | PyList "pyobj list"
  | PyDict "(pyobj \<times> pyobj) list"
  | PyBytes "byte list"
  | PyByteArray "byte list"
  | PyTuple "pyobj list"
  | PySet "pyobj list"
  | PyMemoryView "byte list"
  | PyObject nat
  | PyNULL

text \<open>
  Every way an operation can end other than by returning. The two \<^verbatim>\<open>LensError\<close>
  subclasses and \<^verbatim>\<open>ValueError\<close> carry their message (without the interpolated part of an
  f-string); the others are the host's exceptions. \<open>OutOfBoundsRead\<close> stands for a read
  the source performs without a check outside the object it indexes (the module is
  compiled with \<^verbatim>\<open>boundscheck=False, wraparound=False\<close>), \<open>UndefinedShift\<close> for a C shift
  by the width of the operand or more: in C the behaviour is undefined, here it is an
  outcome of its own.
\<close>

datatype error =
    LensEncodeError string
  | LensDecodeError string
  | KeyError pyobj
  | OverflowError
  | TypeError
  | ValueError string
  | AttributeError
  | UnicodeDecodeError
  | SystemError
  | MemoryError
  | OutOfBoundsRead
  | UndefinedShift

subsection \<open>Tags\<close>

definition T_NULL :: byte where [simp]: "T_NULL = 0"
definition T_TRUE :: byte where [simp]: "T_TRUE = 1"
definition T_FALSE :: byte where [simp]: "T_FALSE = 2"
definition T_INT :: byte where [simp]: "T_INT = 3"
definition T_FLOAT :: byte where [simp]: "T_FLOAT = 4"
definition T_STR :: byte where [simp]: "T_STR = 5"
definition T_ARR :: byte where [simp]: "T_ARR = 6"
definition T_OBJ :: byte where [simp]: "T_OBJ = 7"
definition T_SYMREF :: byte where [simp]: "T_SYMREF = 8"
definition T_BYTES :: byte where [simp]: "T_BYTES = 9"
definition T_TIME :: byte where [simp]: "T_TIME = 10"
definition T_EXT :: byte where [simp]: "T_EXT = 11"
definition T_SET :: byte where [simp]: "T_SET = 12"
definition T_TUPLE :: byte where [simp]: "T_TUPLE = 13"

subsection \<open>Low-level helpers\<close>

text \<open>\<^verbatim>\<open>c_zigzag_decode\<close>: \<^verbatim>\<open>(n >> 1) ^ -(n & 1)\<close> on \<^verbatim>\<open>uint64_t\<close>.\<close>

definition c_zigzag_decode :: "uint64_t \<Rightarrow> int64_t" where
  "c_zigzag_decode n = (drop_bit 1 n) XOR (- (n AND 1))"

text \<open>\<^verbatim>\<open>c_zigzag_encode\<close>: \<^verbatim>\<open>(n << 1) ^ (n >> 63)\<close> on \<^verbatim>\<open>int64_t\<close>, the right shift
  arithmetic.\<close>

definition c_zigzag_encode :: "int64_t \<Rightarrow> uint64_t" where
  "c_zigzag_encode n = (push_bit 1 n) XOR (signed_drop_bit 63 n)"

text \<open>Conversion of a Python integer to a C integer, as Cython generates it: it raises
  \<^verbatim>\<open>OverflowError\<close> outside the range of the C type.\<close>

definition to_int64 :: "int \<Rightarrow> error + int64_t" where
  "to_int64 n = (if - (2 ^ 63) \<le> n \<and> n < 2 ^ 63 then Inr (word_of_int n) else Inl OverflowError)"

definition to_uint64 :: "int \<Rightarrow> error + uint64_t" where
  "to_uint64 n = (if 0 \<le> n \<and> n < 2 ^ 64 then Inr (word_of_int n) else Inl OverflowError)"

text \<open>\<^verbatim>\<open>memcpy\<close>, \<^verbatim>\<open>lens_be64\<close> and the 8-byte view of the result: whatever the byte
  order of the host, the eight bytes are the pattern's, most significant first.\<close>

definition be64_bytes :: "64 word \<Rightarrow> byte list" where
  "be64_bytes w = map (\<lambda>i. ucast (drop_bit (8 * (7 - i)) w)) [0..<8]"

definition be64_word :: "byte list \<Rightarrow> 64 word" where
  "be64_word bs = foldl (\<lambda>acc b. push_bit 8 acc OR ucast b) 0 (take 8 bs)"

subsection \<open>Doubles\<close>

text \<open>
  The arithmetic on C and Python doubles that the codec performs on timestamps. A double
  is held as a pair \<open>(m, e)\<close> for the number \<open>m * 2 ^ e\<close>; the result of an operation is
  the exact result rounded to 53 significant bits, a tie going to the even mantissa
  (IEEE-754 binary64, round to nearest). The ends of the exponent range are not
  modelled: the numbers here are the quotient of a 64-bit integer by 1000 and the
  seconds of an instant, far from both.
\<close>

text \<open>The number of binary digits of a positive integer.\<close>

function bit_length :: "int \<Rightarrow> nat" where
  "bit_length n = (if n \<le> 0 then 0 else Suc (bit_length (n div 2)))"
  by pat_completeness auto
termination
  by (relation "measure nat") auto

declare bit_length.simps [simp del]

text \<open>The integer nearest to \<open>n / d\<close> for \<open>d > 0\<close>, a tie going to the even one.\<close>

definition round_half_even :: "int \<Rightarrow> int \<Rightarrow> int" where
  "round_half_even n d =
     (let q = n div d; r = n mod d
      in if 2 * r < d then q else if 2 * r > d then q + 1 else if even q then q else q + 1)"

text \<open>The fraction \<open>(n / d) / 2 ^ e\<close> as a numerator and a denominator.\<close>

definition scale2 :: "int \<Rightarrow> int \<Rightarrow> int \<Rightarrow> int \<times> int" where
  "scale2 n d e = (if e \<le> 0 then (n * 2 ^ nat (- e), d) else (n, d * 2 ^ nat e))"

text \<open>The double nearest to \<open>n / d\<close> for \<open>d > 0\<close>: the exponent \<open>e\<close> puts the mantissa
  between \<open>2 ^ 52\<close> and \<open>2 ^ 53\<close>.\<close>

definition to_double :: "int \<Rightarrow> int \<Rightarrow> int \<times> int" where
  "to_double n d =
     (if n = 0 then (0, 0)
      else
        (let k = int (bit_length \<bar>n\<bar>) - int (bit_length d);
             e = (case scale2 \<bar>n\<bar> d k of (a, b) \<Rightarrow> if a \<ge> b then k else k - 1) - 52
         in case scale2 n d e of (a, b) \<Rightarrow> (round_half_even a b, e)))"

text \<open>The product and the quotient of a double and an integer constant that is a double
  itself (\<open>1000\<close>, \<open>1e6\<close>), and the truncation of a double towards zero.\<close>

definition double_times :: "int \<times> int \<Rightarrow> int \<Rightarrow> int \<times> int" where
  "double_times x c = (case x of (m, e) \<Rightarrow> (case scale2 (m * c) 1 (- e) of (a, b) \<Rightarrow> to_double a b))"

definition double_over :: "int \<times> int \<Rightarrow> int \<Rightarrow> int \<times> int" where
  "double_over x c = (case x of (m, e) \<Rightarrow> (case scale2 m c (- e) of (a, b) \<Rightarrow> to_double a b))"

definition double_trunc :: "int \<times> int \<Rightarrow> int" where
  "double_trunc x =
     (case x of (m, e) \<Rightarrow> (case scale2 \<bar>m\<bar> 1 (- e) of (a, b) \<Rightarrow> sgn m * (a div b)))"

text \<open>
  \<^verbatim>\<open>int(obj.timestamp() * 1000)\<close> on an aware instant of \<open>us\<close> microseconds:
  \<^verbatim>\<open>timestamp()\<close> is the quotient of the microseconds by \<open>10^6\<close> as a double, the product
  is a double again, and \<^verbatim>\<open>int\<close> truncates towards zero.
\<close>

definition timestamp_ms :: "int \<Rightarrow> int" where
  "timestamp_ms us = double_trunc (double_times (to_double us 1000000) 1000)"

section \<open>FastEncoder\<close>

text \<open>
  \<^verbatim>\<open>symbol_map = {sym: i for i, sym in enumerate(symbols)}\<close>: a later occurrence of a
  string overwrites the index of an earlier one.
\<close>

definition make_symbol_map :: "string list \<Rightarrow> (string \<rightharpoonup> nat)" where
  "make_symbol_map symbols = fold (\<lambda>(i, sym) m. m(sym \<mapsto> i)) (enumerate 0 symbols) Map.empty"

text \<open>The extension handler is absent (\<^verbatim>\<open>None\<close>) or a function on the object; it
  answers \<open>None\<close> (a falsy result) or the pair \<^verbatim>\<open>(eid, payload)\<close>.\<close>

record FastEncoder =
  symbol_map :: "string \<rightharpoonup> nat"
  ext_handler :: "(pyobj \<Rightarrow> (int \<times> byte list) option) option"

definition FastEncoder_init ::
  "string list \<Rightarrow> (pyobj \<Rightarrow> (int \<times> byte list) option) option \<Rightarrow> FastEncoder" where
  "FastEncoder_init symbols h = \<lparr>symbol_map = make_symbol_map symbols, ext_handler = h\<rparr>"

text \<open>\<^verbatim>\<open>_write_varint\<close>; the buffer is passed in and returned.\<close>

function write_varint :: "uint64_t \<Rightarrow> byte list \<Rightarrow> byte list" where
  "write_varint n buf =
     (if n \<ge> 0x80 then write_varint (drop_bit 7 n) (buf @ [ucast ((n AND 0x7F) OR 0x80)])
      else buf @ [ucast n])"
  by pat_completeness auto
termination
proof (relation "measure (\<lambda>(n, buf). unat n)")
  fix n :: uint64_t and buf :: "byte list"
  assume "0x80 \<le> n"
  then have "128 \<le> unat n" by (simp add: word_le_nat_alt)
  then have "unat n div 128 < unat n" by simp
  then show "((drop_bit 7 n, buf @ [ucast ((n AND 0x7F) OR 0x80)]), (n, buf))
      \<in> measure (\<lambda>(n, buf). unat n)"
    by (simp add: drop_bit_eq_div unat_div)
qed simp

declare write_varint.simps [simp del]

text \<open>\<^verbatim>\<open>self.symbol_map[k]\<close> for a map key: the dictionary holds strings only, so any
  other key is missing from it.\<close>

definition symbol_index :: "FastEncoder \<Rightarrow> pyobj \<Rightarrow> error + nat" where
  "symbol_index enc k =
     (case k of
        PyStr s \<Rightarrow> (case symbol_map enc s of Some i \<Rightarrow> Inr i | None \<Rightarrow> Inl (KeyError k))
      | _ \<Rightarrow> Inl (KeyError k))"

text \<open>
  \<^verbatim>\<open>_encode_recursive\<close>, its branches in the order of the source. The buffer is passed
  in and returned; a raised exception is \<open>Inl\<close>. The three \<^verbatim>\<open>for\<close> loops are
  \<open>encode_items\<close> (list, tuple, set) and \<open>encode_dict_items\<close>.
\<close>

fun encode_recursive :: "FastEncoder \<Rightarrow> pyobj \<Rightarrow> byte list \<Rightarrow> error + byte list"
  and encode_items :: "FastEncoder \<Rightarrow> pyobj list \<Rightarrow> byte list \<Rightarrow> error + byte list"
  and encode_dict_items ::
    "FastEncoder \<Rightarrow> (pyobj \<times> pyobj) list \<Rightarrow> byte list \<Rightarrow> error + byte list"
where
  "encode_recursive enc PyNone buf = Inr (buf @ [T_NULL])"
| "encode_recursive enc (PyBool b) buf = Inr (buf @ [if b then T_TRUE else T_FALSE])"
| "encode_recursive enc (PyInt n) buf =
     (case to_int64 n of
        Inl e \<Rightarrow> Inl e
      | Inr w \<Rightarrow> Inr (write_varint (c_zigzag_encode w) (buf @ [T_INT])))"
| "encode_recursive enc (PyFloat bits) buf = Inr (buf @ [T_FLOAT] @ be64_bytes bits)"
| "encode_recursive enc (PyStr s) buf =
     (case symbol_map enc s of
        Some i \<Rightarrow> Inr (write_varint (of_nat i) (buf @ [T_SYMREF]))
      | None \<Rightarrow>
          (let b_val = map of_char s :: byte list
           in Inr (write_varint (of_nat (length b_val)) (buf @ [T_STR]) @ b_val)))"
| "encode_recursive enc (PyDatetime us) buf =
     (case to_int64 (timestamp_ms us) of
        Inl e \<Rightarrow> Inl e
      | Inr w \<Rightarrow> Inr (write_varint (c_zigzag_encode w) (buf @ [T_TIME])))"
| "encode_recursive enc (PyList xs) buf =
     encode_items enc xs (write_varint (of_nat (length xs)) (buf @ [T_ARR]))"
| "encode_recursive enc (PyDict kvs) buf =
     encode_dict_items enc kvs (write_varint (of_nat (length kvs)) (buf @ [T_OBJ]))"
| "encode_recursive enc (PyBytes bs) buf =
     Inr (write_varint (of_nat (length bs)) (buf @ [T_BYTES]) @ bs)"
| "encode_recursive enc (PyByteArray bs) buf =
     Inr (write_varint (of_nat (length bs)) (buf @ [T_BYTES]) @ bs)"
| "encode_recursive enc (PyTuple xs) buf =
     encode_items enc xs (write_varint (of_nat (length xs)) (buf @ [T_TUPLE]))"
| "encode_recursive enc (PySet xs) buf =
     encode_items enc xs (write_varint (of_nat (length xs)) (buf @ [T_SET]))"
| "encode_recursive enc obj buf =
     (case ext_handler enc of
        None \<Rightarrow> Inl (LensEncodeError ''Unsupported type'')
      | Some h \<Rightarrow>
          (case h obj of
             None \<Rightarrow> Inl (LensEncodeError ''Unsupported type'')
           | Some (eid, payload) \<Rightarrow>
               (case to_uint64 eid of
                  Inl e \<Rightarrow> Inl e
                | Inr w \<Rightarrow>
                    Inr (write_varint (of_nat (length payload))
                           (write_varint w (buf @ [T_EXT])) @ payload))))"
| "encode_items enc [] buf = Inr buf"
| "encode_items enc (item # items) buf =
     (case encode_recursive enc item buf of
        Inl e \<Rightarrow> Inl e
      | Inr buf' \<Rightarrow> encode_items enc items buf')"
| "encode_dict_items enc [] buf = Inr buf"
| "encode_dict_items enc ((k, v) # kvs) buf =
     (case symbol_index enc k of
        Inl e \<Rightarrow> Inl e
      | Inr i \<Rightarrow>
          (case encode_recursive enc v (write_varint (of_nat i) (buf @ [T_SYMREF])) of
             Inl e \<Rightarrow> Inl e
           | Inr buf' \<Rightarrow> encode_dict_items enc kvs buf'))"

text \<open>\<^verbatim>\<open>FastEncoder.encode\<close>: the buffer is cleared, then filled.\<close>

definition encode :: "FastEncoder \<Rightarrow> pyobj \<Rightarrow> error + byte list" where
  "encode enc obj = encode_recursive enc obj []"

section \<open>Host operations the decoder calls\<close>

text \<open>A \<^verbatim>\<open>Py_ssize_t\<close> sum as the machine computes it: two's complement, 64 bits.\<close>

definition ssize_wrap :: "int \<Rightarrow> int" where
  "ssize_wrap x = sint (word_of_int x :: 64 word)"

text \<open>
  \<^verbatim>\<open>xs[i]\<close> on a \<^verbatim>\<open>cdef list\<close> as this module compiles it
  (\<^verbatim>\<open>boundscheck=False, wraparound=False\<close>): the slot \<open>i\<close> is read as it is, with no test
  against the length and no counting from the end for a negative \<open>i\<close>.
\<close>

definition list_item :: "'a list \<Rightarrow> int \<Rightarrow> error + 'a" where
  "list_item xs i =
     (if 0 \<le> i \<and> i < int (length xs) then Inr (xs ! nat i) else Inl OutOfBoundsRead)"

text \<open>\<^verbatim>\<open>PyList_New\<close> and \<^verbatim>\<open>PyTuple_New\<close>: \<open>n\<close> NULL slots; a negative size is a bad
  internal call, a size whose array of pointers would pass \<^verbatim>\<open>PY_SSIZE_T_MAX\<close> bytes is
  refused.\<close>

definition PyList_New :: "int \<Rightarrow> error + pyobj" where
  "PyList_New n =
     (if n < 0 then Inl SystemError
      else if n > (2 ^ 63 - 1) div 8 then Inl MemoryError
      else Inr (PyList (replicate (nat n) PyNULL)))"

definition PyTuple_New :: "int \<Rightarrow> error + pyobj" where
  "PyTuple_New n =
     (if n < 0 then Inl SystemError
      else if n > (2 ^ 63 - 1) div 8 then Inl MemoryError
      else Inr (PyTuple (replicate (nat n) PyNULL)))"

text \<open>\<^verbatim>\<open>PySet_New(None)\<close>: the argument is Python's \<^verbatim>\<open>None\<close>, not the \<^verbatim>\<open>NULL\<close> that asks
  for an empty set, and \<^verbatim>\<open>None\<close> is not iterable.\<close>

definition PySet_New_None :: "error + pyobj" where
  "PySet_New_None = Inl TypeError"

text \<open>Well-formed UTF-8 (the table of the Unicode standard), which a strict decoder
  demands.\<close>

definition utf8_cont :: "byte \<Rightarrow> bool" where
  "utf8_cont b = (0x80 \<le> b \<and> b \<le> 0xBF)"

fun utf8_valid :: "byte list \<Rightarrow> bool" where
  "utf8_valid [] = True"
| "utf8_valid [b0] = (b0 < 0x80)"
| "utf8_valid [b0, b1] =
     (if b0 < 0x80 then b1 < 0x80
      else 0xC2 \<le> b0 \<and> b0 \<le> 0xDF \<and> utf8_cont b1)"
| "utf8_valid [b0, b1, b2] =
     (if b0 < 0x80 then utf8_valid [b1, b2]
      else if 0xC2 \<le> b0 \<and> b0 \<le> 0xDF then utf8_cont b1 \<and> b2 < 0x80
      else 0xE0 \<le> b0 \<and> b0 \<le> 0xEF \<and> utf8_cont b1 \<and> utf8_cont b2
        \<and> (b0 = 0xE0 \<longrightarrow> 0xA0 \<le> b1) \<and> (b0 = 0xED \<longrightarrow> b1 \<le> 0x9F))"
| "utf8_valid (b0 # b1 # b2 # b3 # bs) =
     (if b0 < 0x80 then utf8_valid (b1 # b2 # b3 # bs)
      else if 0xC2 \<le> b0 \<and> b0 \<le> 0xDF then utf8_cont b1 \<and> utf8_valid (b2 # b3 # bs)
      else if 0xE0 \<le> b0 \<and> b0 \<le> 0xEF then
        utf8_cont b1 \<and> utf8_cont b2
        \<and> (b0 = 0xE0 \<longrightarrow> 0xA0 \<le> b1) \<and> (b0 = 0xED \<longrightarrow> b1 \<le> 0x9F)
        \<and> utf8_valid (b3 # bs)
      else 0xF0 \<le> b0 \<and> b0 \<le> 0xF4 \<and> utf8_cont b1 \<and> utf8_cont b2 \<and> utf8_cont b3
        \<and> (b0 = 0xF0 \<longrightarrow> 0x90 \<le> b1) \<and> (b0 = 0xF4 \<longrightarrow> b1 \<le> 0x8F)
        \<and> utf8_valid bs)"

text \<open>A slice \<^verbatim>\<open>view[start:stop]\<close> of a memoryview: both ends are taken from the end
  when negative and clipped to the view.\<close>

definition slice_bound :: "int \<Rightarrow> int \<Rightarrow> int" where
  "slice_bound n i =
     (if i < 0 then (if i + n < 0 then 0 else i + n) else if i > n then n else i)"

definition py_slice :: "byte list \<Rightarrow> int \<Rightarrow> int \<Rightarrow> byte list" where
  "py_slice xs start stop =
     (let n = int (length xs); s = slice_bound n start; e = slice_bound n stop
      in take (nat (e - s)) (drop (nat s) xs))"

text \<open>
  \<^verbatim>\<open>datetime.fromtimestamp(var_int / 1000.0, tz=UTC)\<close> for a \<^verbatim>\<open>uint64_t\<close> \<^verbatim>\<open>var_int\<close>. The
  C division converts \<^verbatim>\<open>var_int\<close> to a double and divides. \<^verbatim>\<open>fromtimestamp\<close> splits
  the double into its whole seconds and its fraction, multiplies the fraction by \<open>1e6\<close>
  and rounds the product to the nearest integer, a tie going to the even one; a million
  microseconds carry into the seconds. The instant is made when its year is at most
  9999; the seconds of a quotient of a \<^verbatim>\<open>uint64_t\<close> are not negative and fit \<^verbatim>\<open>time_t\<close>.
\<close>

definition datetime_fromtimestamp_ms :: "uint64_t \<Rightarrow> error + pyobj" where
  "datetime_fromtimestamp_ms var_int =
     (let t = double_over (to_double (uint var_int) 1) 1000;
          sec = double_trunc t;
          frac = (case t of (m, e) \<Rightarrow>
                    (case scale2 m 1 (- e) of (a, b) \<Rightarrow> to_double (a - sec * b) b));
          us = (case double_times frac 1000000 of (m, e) \<Rightarrow>
                  (case scale2 m 1 (- e) of (a, b) \<Rightarrow> round_half_even a b));
          sec = (if us \<ge> 1000000 then sec + 1 else sec);
          us = (if us \<ge> 1000000 then us - 1000000 else us)
      in if sec < 253402300800 then Inr (PyDatetime (sec * 1000000 + us))
         else Inl (ValueError ''year is out of range''))"

section \<open>DecodeFrame\<close>

record DecodeFrame =
  container :: pyobj
  remaining :: int
  list_idx :: int
  current_key :: pyobj
  is_dict :: bool

text \<open>\<^verbatim>\<open>DecodeFrame.reset\<close> writes every field, so the frame after it is this record;
  \<^verbatim>\<open>DecodeFrame(container, remaining, is_dict)\<close> is a new object holding it.\<close>

definition reset :: "pyobj \<Rightarrow> int \<Rightarrow> bool \<Rightarrow> DecodeFrame" where
  "reset c r d =
     \<lparr>container = c, remaining = r, list_idx = 0, current_key = PyNone, is_dict = d\<rparr>"

section \<open>FastDecoder\<close>

text \<open>
  Frames are objects, and the stack and the pool hold references to them. \<open>frame_store\<close>
  maps a reference (an index) to the frame: references 0 to 31 are
  \<^verbatim>\<open>frame_pool[0]\<close> to \<^verbatim>\<open>frame_pool[31]\<close>, and every frame made by \<^verbatim>\<open>DecodeFrame(...)\<close>
  past the pool gets the next free reference. The hooks are absent or functions; they
  may raise.
\<close>

record FastDecoder =
  buffer :: "byte list"
  pos :: int
  size :: int
  symbols :: "string list"
  frame_store :: "DecodeFrame list"
  pool_idx :: int
  zero_copy :: bool
  ext_hook :: "(int \<Rightarrow> pyobj \<Rightarrow> error + pyobj) option"
  ts_hook :: "(int \<Rightarrow> error + pyobj) option"

definition FastDecoder_init ::
  "byte list \<Rightarrow> string list \<Rightarrow> bool \<Rightarrow> (int \<Rightarrow> pyobj \<Rightarrow> error + pyobj) option
     \<Rightarrow> (int \<Rightarrow> error + pyobj) option \<Rightarrow> FastDecoder" where
  "FastDecoder_init data syms zc eh th =
     \<lparr>buffer = data, pos = 0, size = int (length data), symbols = syms,
      frame_store = replicate 32 (reset PyNone 0 False), pool_idx = 0,
      zero_copy = zc, ext_hook = eh, ts_hook = th\<rparr>"

text \<open>\<^verbatim>\<open>self.buffer[i]\<close>, which the compiled code reads without a check.\<close>

definition buffer_at :: "FastDecoder \<Rightarrow> int \<Rightarrow> error + byte" where
  "buffer_at self i =
     (if 0 \<le> i \<and> i < size self then Inr (buffer self ! nat i) else Inl OutOfBoundsRead)"

text \<open>The \<open>ln\<close> bytes at \<^verbatim>\<open>&self.buffer[start]\<close>, read through the pointer.\<close>

definition buffer_span :: "FastDecoder \<Rightarrow> int \<Rightarrow> int \<Rightarrow> error + byte list" where
  "buffer_span self start ln =
     (if 0 \<le> start \<and> 0 \<le> ln \<and> start + ln \<le> size self
      then Inr (take (nat ln) (drop (nat start) (buffer self)))
      else Inl OutOfBoundsRead)"

text \<open>\<^verbatim>\<open>PyUnicode_DecodeUTF8(<char *>&self.buffer[start], ln, "strict")\<close>: a negative
  length is refused (\<^verbatim>\<open>SystemError\<close>), the bytes are read through the pointer, and
  bytes that are not UTF-8 raise \<^verbatim>\<open>UnicodeDecodeError\<close>.\<close>

definition PyUnicode_DecodeUTF8 :: "FastDecoder \<Rightarrow> int \<Rightarrow> int \<Rightarrow> error + pyobj" where
  "PyUnicode_DecodeUTF8 self start ln =
     (if ln < 0 then Inl SystemError
      else
        (case buffer_span self start ln of
           Inl e \<Rightarrow> Inl e
         | Inr bs \<Rightarrow>
             (if utf8_valid bs then Inr (PyStr (map (\<lambda>b. char_of (unat b)) bs))
              else Inl UnicodeDecodeError)))"

text \<open>\<^verbatim>\<open>self.symbols[i]\<close> with a \<^verbatim>\<open>uint64_t\<close> index on the \<^verbatim>\<open>cdef list\<close>: the index is
  taken as a \<^verbatim>\<open>Py_ssize_t\<close> and the slot is read without a check.\<close>

definition symbols_at :: "FastDecoder \<Rightarrow> uint64_t \<Rightarrow> error + pyobj" where
  "symbols_at self i =
     (case list_item (symbols self) (sint i) of
        Inl e \<Rightarrow> Inl e
      | Inr s \<Rightarrow> Inr (PyStr s))"

text \<open>\<^verbatim>\<open>_read_varint\<close>: the loop, with \<open>res\<close> and \<open>shift\<close> as arguments.\<close>

function read_varint_loop ::
  "FastDecoder \<Rightarrow> uint64_t \<Rightarrow> nat \<Rightarrow> error + (uint64_t \<times> FastDecoder)" where
  "read_varint_loop self res shift =
     (if pos self \<ge> size self then Inl (LensDecodeError ''Unexpected end of buffer in varint'')
      else
        (case buffer_at self (pos self) of
           Inl e \<Rightarrow> Inl e
         | Inr b \<Rightarrow>
             (if b AND 0x80 = 0
              then Inr (res OR push_bit shift (ucast (b AND 0x7F)), self\<lparr>pos := pos self + 1\<rparr>)
              else if shift + 7 > 63 then Inl (LensDecodeError ''Varint overflow'')
              else read_varint_loop (self\<lparr>pos := pos self + 1\<rparr>)
                     (res OR push_bit shift (ucast (b AND 0x7F))) (shift + 7))))"
  by pat_completeness auto
termination
  by (relation "measure (\<lambda>(self, res, shift). 64 - shift)") auto

declare read_varint_loop.simps [simp del]

definition read_varint :: "FastDecoder \<Rightarrow> error + (uint64_t \<times> FastDecoder)" where
  "read_varint self = read_varint_loop self 0 0"

text \<open>\<^verbatim>\<open>_push_frame\<close>: the reference of the frame it hands out, and the decoder after it.\<close>

definition push_frame :: "FastDecoder \<Rightarrow> pyobj \<Rightarrow> int \<Rightarrow> bool \<Rightarrow> nat \<times> FastDecoder" where
  "push_frame self c r d =
     (if pool_idx self \<ge> 32
      then (length (frame_store self),
            self\<lparr>frame_store := frame_store self @ [reset c r d]\<rparr>)
      else (nat (pool_idx self),
            self\<lparr>pool_idx := pool_idx self + 1,
                 frame_store := (frame_store self)[nat (pool_idx self) := reset c r d]\<rparr>))"


text \<open>
  One turn of the \<^verbatim>\<open>while True\<close> loop of \<^verbatim>\<open>decode_all\<close> ends the call (\<open>Done\<close>: a
  returned value or a raised exception) or goes round again (\<open>Next\<close>). The stack is
  the list of frame references in the order of the Python list: \<^verbatim>\<open>append\<close> adds at the
  end.
\<close>

datatype step = Done "error + pyobj" | Next FastDecoder "nat list"

text \<open>
  \<^verbatim>\<open>stack[-1]\<close>. \<^verbatim>\<open>stack\<close> is a \<^verbatim>\<open>cdef list\<close> and the module is compiled with
  \<^verbatim>\<open>wraparound=False, boundscheck=False\<close>, so the index \<open>-1\<close> is not counted from the end:
  the expression is \<open>list_item stack (- 1)\<close>, the read of the slot before the first one,
  which is outside every list (\<open>list_item_before_first\<close> below). It occurs at three
  places, each time under \<^verbatim>\<open>if stack\<close>: \<^verbatim>\<open>frame = stack[-1]\<close> at the head of the loop, and
  the argument of the two calls \<^verbatim>\<open>self._fill_container(stack[-1], val, owned)\<close>. A run
  ends at the read, with \<open>OutOfBoundsRead\<close>. What uses the frame read there comes after
  the undefined read and belongs to no run: the close of a frame, the map-key branch
  and the body of \<^verbatim>\<open>_fill_container\<close>.
\<close>

text \<open>The end of the loop body: \<^verbatim>\<open>if stack: self._fill_container(stack[-1], val, owned)\<close>,
  \<^verbatim>\<open>else: return val\<close>.\<close>

definition install :: "FastDecoder \<Rightarrow> nat list \<Rightarrow> pyobj \<Rightarrow> step" where
  "install self stack val =
     (if stack \<noteq> [] then Done (Inl OutOfBoundsRead) else Done (Inr val))"

text \<open>The open-container branches: make the container, push a frame, append it to the
  stack, \<^verbatim>\<open>continue\<close>.\<close>

definition open_container ::
  "FastDecoder \<Rightarrow> nat list \<Rightarrow> error + pyobj \<Rightarrow> uint64_t \<Rightarrow> bool \<Rightarrow> step" where
  "open_container self stack made var_int d =
     (case made of
        Inl e \<Rightarrow> Done (Inl e)
      | Inr c \<Rightarrow>
          (case push_frame self c (sint var_int) d of
             (f, self') \<Rightarrow> Next self' (stack @ [f])))"

text \<open>
  The part of the loop body from \<^verbatim>\<open>if self.pos >= self.size\<close> on: read a tag and
  decode the value it announces. In the BYTES branch the slice of the typed memoryview
  is the value when \<^verbatim>\<open>zero_copy\<close> is on; otherwise \<^verbatim>\<open>.tobytes()\<close> is looked up on it, and
  a Cython memoryview has no such attribute. In the SET branch the container is the
  result of \<^verbatim>\<open>PySet_New(None)\<close>.
\<close>

definition decode_value :: "FastDecoder \<Rightarrow> nat list \<Rightarrow> step" where
  "decode_value self0 stack =
     (if pos self0 \<ge> size self0 then Done (Inl (LensDecodeError ''Unexpected end of buffer''))
      else
        (case buffer_at self0 (pos self0) of
           Inl e \<Rightarrow> Done (Inl e)
         | Inr tag \<Rightarrow>
             (let self = self0\<lparr>pos := pos self0 + 1\<rparr> in
              if tag = T_NULL then install self stack PyNone
              else if tag = T_TRUE then install self stack (PyBool True)
              else if tag = T_FALSE then install self stack (PyBool False)
              else if tag = T_INT then
                (case read_varint self of
                   Inl e \<Rightarrow> Done (Inl e)
                 | Inr (n, self) \<Rightarrow> install self stack (PyInt (sint (c_zigzag_decode n))))
              else if tag = T_FLOAT then
                (if pos self + 8 > size self
                 then Done (Inl (LensDecodeError ''Unexpected end of buffer for float''))
                 else
                   (case buffer_span self (pos self) 8 of
                      Inl e \<Rightarrow> Done (Inl e)
                    | Inr bs \<Rightarrow>
                        install (self\<lparr>pos := pos self + 8\<rparr>) stack (PyFloat (be64_word bs))))
              else if tag = T_STR then
                (case read_varint self of
                   Inl e \<Rightarrow> Done (Inl e)
                 | Inr (n, self) \<Rightarrow>
                     (let ln = sint n in
                      if ssize_wrap (pos self + ln) > size self
                      then Done (Inl (LensDecodeError ''Unexpected end of buffer for string''))
                      else
                        (let start = pos self; self = self\<lparr>pos := ssize_wrap (pos self + ln)\<rparr> in
                         case PyUnicode_DecodeUTF8 self start ln of
                           Inl e \<Rightarrow> Done (Inl e)
                         | Inr val \<Rightarrow> install self stack val)))
              else if tag = T_BYTES then
                (case read_varint self of
                   Inl e \<Rightarrow> Done (Inl e)
                 | Inr (n, self) \<Rightarrow>
                     (let ln = sint n in
                      if ssize_wrap (pos self + ln) > size self
                      then Done (Inl (LensDecodeError ''Unexpected end of buffer for bytes''))
                      else
                        (let start = pos self; self = self\<lparr>pos := ssize_wrap (pos self + ln)\<rparr>;
                             view = py_slice (buffer self) start (pos self)
                         in if zero_copy self then install self stack (PyMemoryView view)
                            else Done (Inl AttributeError))))
              else if tag = T_SYMREF then
                (case read_varint self of
                   Inl e \<Rightarrow> Done (Inl e)
                 | Inr (n, self) \<Rightarrow>
                     (case symbols_at self n of
                        Inl e \<Rightarrow> Done (Inl e)
                      | Inr val \<Rightarrow> install self stack val))
              else if tag = T_TIME then
                (case read_varint self of
                   Inl e \<Rightarrow> Done (Inl e)
                 | Inr (n, self) \<Rightarrow>
                     (let var_int = (c_zigzag_decode n :: uint64_t) in
                      case (case ts_hook self of
                              Some hook \<Rightarrow> hook (uint var_int)
                            | None \<Rightarrow> datetime_fromtimestamp_ms var_int) of
                        Inl e \<Rightarrow> Done (Inl e)
                      | Inr val \<Rightarrow> install self stack val))
              else if tag = T_EXT then
                (case read_varint self of
                   Inl e \<Rightarrow> Done (Inl e)
                 | Inr (var_int, self) \<Rightarrow>
                     (case read_varint self of
                        Inl e \<Rightarrow> Done (Inl e)
                      | Inr (n, self) \<Rightarrow>
                          (let ln = sint n; start = pos self;
                               self = self\<lparr>pos := ssize_wrap (pos self + ln)\<rparr>;
                               view = PyMemoryView (py_slice (buffer self) start (pos self))
                           in case (case ext_hook self of
                                      Some hook \<Rightarrow> hook (uint var_int) view
                                    | None \<Rightarrow> Inr (PyTuple [PyInt (uint var_int), view])) of
                                Inl e \<Rightarrow> Done (Inl e)
                              | Inr val \<Rightarrow> install self stack val)))
              else if tag = T_ARR then
                (case read_varint self of
                   Inl e \<Rightarrow> Done (Inl e)
                 | Inr (var_int, self) \<Rightarrow>
                     (if var_int = 0 then install self stack (PyList [])
                      else open_container self stack (PyList_New (sint var_int)) var_int False))
              else if tag = T_OBJ then
                (case read_varint self of
                   Inl e \<Rightarrow> Done (Inl e)
                 | Inr (var_int, self) \<Rightarrow>
                     (if var_int = 0 then install self stack (PyDict [])
                      else open_container self stack (Inr (PyDict [])) var_int True))
              else if tag = T_TUPLE then
                (case read_varint self of
                   Inl e \<Rightarrow> Done (Inl e)
                 | Inr (var_int, self) \<Rightarrow>
                     open_container self stack (PyTuple_New (sint var_int)) var_int False)
              else if tag = T_SET then
                (case read_varint self of
                   Inl e \<Rightarrow> Done (Inl e)
                 | Inr (var_int, self) \<Rightarrow>
                     open_container self stack PySet_New_None var_int False)
              else Done (Inl (LensDecodeError ''Unknown tag'')))))"

text \<open>
  One turn of the loop. With a frame on the stack the turn starts with
  \<^verbatim>\<open>frame = stack[-1]\<close>; with an empty stack it reads a value.
\<close>

definition decode_step :: "FastDecoder \<Rightarrow> nat list \<Rightarrow> step" where
  "decode_step self stack =
     (if stack \<noteq> [] then Done (Inl OutOfBoundsRead) else decode_value self stack)"

text \<open>The loop. It is a \<^verbatim>\<open>while True\<close>: that it ends is not given, so not returning is
  the value \<open>None\<close>.\<close>

partial_function (option) decode_loop :: "FastDecoder \<Rightarrow> nat list \<Rightarrow> (error + pyobj) option" where
  "decode_loop self stack =
     (case decode_step self stack of
        Done r \<Rightarrow> Some r
      | Next self' stack' \<Rightarrow> decode_loop self' stack')"

declare decode_loop.simps [code]

definition decode_all :: "FastDecoder \<Rightarrow> (error + pyobj) option" where
  "decode_all self = decode_loop self []"

text \<open>\<^verbatim>\<open>FastEncoder(symbols).encode(obj)\<close> and \<^verbatim>\<open>FastDecoder(data, symbols).decode_all()\<close>
  with the defaults of the two \<^verbatim>\<open>__init__\<close>: no handler, no hooks, \<^verbatim>\<open>zero_copy=False\<close>.\<close>

definition lens_encode :: "pyobj \<Rightarrow> string list \<Rightarrow> error + byte list" where
  "lens_encode obj syms = encode (FastEncoder_init syms None) obj"

definition lens_decode :: "byte list \<Rightarrow> string list \<Rightarrow> (error + pyobj) option" where
  "lens_decode data syms = decode_all (FastDecoder_init data syms False None None)"

section \<open>The bookkeeping of the frame pool\<close>

text \<open>
  The statements of \<^verbatim>\<open>decode_all\<close> that change the stack and \<^verbatim>\<open>pool_idx\<close>, each on its own.
  A container branch does \<^verbatim>\<open>stack.append(self._push_frame(container, remaining, is_dict))\<close>;
  the close of a frame does \<^verbatim>\<open>stack.pop()\<close> and
  \<^verbatim>\<open>if self.pool_idx > 0: self.pool_idx -= 1\<close>, whether the frame popped came from the pool
  or not.
\<close>

definition push_and_append ::
  "FastDecoder \<Rightarrow> nat list \<Rightarrow> pyobj \<Rightarrow> int \<Rightarrow> bool \<Rightarrow> FastDecoder \<times> nat list" where
  "push_and_append self stack c r d =
     (case push_frame self c r d of (f, self') \<Rightarrow> (self', stack @ [f]))"

definition pop_frame :: "FastDecoder \<Rightarrow> nat list \<Rightarrow> FastDecoder \<times> nat list" where
  "pop_frame self stack =
     ((if pool_idx self > 0 then self\<lparr>pool_idx := pool_idx self - 1\<rparr> else self), butlast stack)"

text \<open>\<open>n\<close> containers opened one inside the other, each a list of one slot.\<close>

fun open_frames :: "nat \<Rightarrow> FastDecoder \<Rightarrow> nat list \<Rightarrow> FastDecoder \<times> nat list" where
  "open_frames 0 self stack = (self, stack)"
| "open_frames (Suc n) self stack =
     (case push_and_append self stack (PyList [PyNULL]) 1 False of
        (self', stack') \<Rightarrow> open_frames n self' stack')"

section \<open>The pointer-based variant of the varint reader\<close>

text \<open>
  \<^verbatim>\<open>FastDecoder._read_varint\<close> of the second module of \<^verbatim>\<open>core.pyx\<close> (lines 410-424), on
  the bytes from \<^verbatim>\<open>self.curr\<close> to \<^verbatim>\<open>self.end\<close>; it answers the value and the bytes left.
  It tests the data bits of a byte at \<^verbatim>\<open>shift >= 63\<close> before it ors them in. A byte
  that passes the test at a shift of 64 or more is shifted by more than the width of
  the \<^verbatim>\<open>uint64_t\<close>.
\<close>

fun read_varint_ptr :: "byte list \<Rightarrow> uint64_t \<Rightarrow> nat \<Rightarrow> error + (uint64_t \<times> byte list)" where
  "read_varint_ptr [] res shift = Inl (ValueError ''Truncated varint'')"
| "read_varint_ptr (b # rest) res shift =
     (if shift \<ge> 63 \<and> (b AND 0x7F) > 1 then Inl (ValueError ''Varint overflow'')
      else if shift \<ge> 64 then Inl UndefinedShift
      else if b AND 0x80 = 0 then Inr (res OR push_bit shift (ucast (b AND 0x7F)), rest)
      else read_varint_ptr rest (res OR push_bit shift (ucast (b AND 0x7F))) (shift + 7))"

section \<open>Inputs and the course of an encoding\<close>

text \<open>\<open>nest n v\<close> is \<open>v\<close> inside \<open>n\<close> one-element lists.\<close>

fun nest :: "nat \<Rightarrow> pyobj \<Rightarrow> pyobj" where
  "nest 0 v = v"
| "nest (Suc n) v = PyList [nest n v]"

text \<open>A list of an empty tuple, a one-entry map and \<^verbatim>\<open>None\<close>, inside 31 lists: the
  empty tuple is the 33rd container.\<close>

definition deep_value :: pyobj where
  "deep_value = nest 31 (PyList [PyTuple [], PyDict [(PyStr ''k'', PyNone)], PyNone])"

definition deep_bytes :: "byte list" where
  "deep_bytes = concat (replicate 31 [6, 1]) @ [6, 3, 13, 0, 7, 1, 8, 0, 0, 0]"

text \<open>The objects inside \<open>obj\<close>: the object, the items of a list, tuple or set, the values
  of a map, and what is inside those.\<close>

fun reached :: "pyobj \<Rightarrow> pyobj list"
  and reached_items :: "pyobj list \<Rightarrow> pyobj list"
  and reached_dict_items :: "(pyobj \<times> pyobj) list \<Rightarrow> pyobj list"
where
  "reached (PyList xs) = PyList xs # reached_items xs"
| "reached (PyTuple xs) = PyTuple xs # reached_items xs"
| "reached (PySet xs) = PySet xs # reached_items xs"
| "reached (PyDict kvs) = PyDict kvs # reached_dict_items kvs"
| "reached obj = [obj]"
| "reached_items [] = []"
| "reached_items (x # xs) = reached x @ reached_items xs"
| "reached_dict_items [] = []"
| "reached_dict_items ((k, v) # kvs) = reached v @ reached_dict_items kvs"

text \<open>The objects that fall through every \<^verbatim>\<open>isinstance\<close> test of \<^verbatim>\<open>_encode_recursive\<close>.\<close>

fun fallthrough :: "pyobj \<Rightarrow> bool" where
  "fallthrough (PyMemoryView bs) = True"
| "fallthrough (PyObject n) = True"
| "fallthrough PyNULL = True"
| "fallthrough obj = False"

text \<open>No extension match: no handler, or a handler that declines the object.\<close>

definition no_ext_match :: "FastEncoder \<Rightarrow> pyobj \<Rightarrow> bool" where
  "no_ext_match enc obj = (case ext_handler enc of None \<Rightarrow> True | Some h \<Rightarrow> h obj = None)"

text \<open>A map key that is a string present in the symbol table.\<close>

definition in_symbol_table :: "FastEncoder \<Rightarrow> pyobj \<Rightarrow> bool" where
  "in_symbol_table enc k = (case k of PyStr s \<Rightarrow> symbol_map enc s \<noteq> None | _ \<Rightarrow> False)"

text \<open>A map with a key that is not a string present in the symbol table.\<close>

definition has_foreign_key :: "FastEncoder \<Rightarrow> pyobj \<Rightarrow> bool" where
  "has_foreign_key enc obj =
     (case obj of PyDict kvs \<Rightarrow> (\<exists>k\<in>set (map fst kvs). \<not> in_symbol_table enc k) | _ \<Rightarrow> False)"

text \<open>\<^verbatim>\<open>_encode_recursive\<close> returns on \<open>obj\<close> (it raises nothing).\<close>

definition encodes :: "FastEncoder \<Rightarrow> pyobj \<Rightarrow> bool" where
  "encodes enc obj = (case encode_recursive enc obj [] of Inl e \<Rightarrow> False | Inr bs \<Rightarrow> True)"

text \<open>
  The objects type dispatch reaches while \<open>obj\<close> is encoded, that is the arguments of the
  calls of \<^verbatim>\<open>_encode_recursive\<close>, in their order. A \<^verbatim>\<open>for\<close> loop goes on to the next item
  when the call on the item before has returned, and the loop of a map calls on a value
  when the lookup of its key has returned.
\<close>

fun dispatched :: "FastEncoder \<Rightarrow> pyobj \<Rightarrow> pyobj list"
  and dispatched_items :: "FastEncoder \<Rightarrow> pyobj list \<Rightarrow> pyobj list"
  and dispatched_dict_items :: "FastEncoder \<Rightarrow> (pyobj \<times> pyobj) list \<Rightarrow> pyobj list"
where
  "dispatched enc (PyList xs) = PyList xs # dispatched_items enc xs"
| "dispatched enc (PyTuple xs) = PyTuple xs # dispatched_items enc xs"
| "dispatched enc (PySet xs) = PySet xs # dispatched_items enc xs"
| "dispatched enc (PyDict kvs) = PyDict kvs # dispatched_dict_items enc kvs"
| "dispatched enc obj = [obj]"
| "dispatched_items enc [] = []"
| "dispatched_items enc (x # xs) =
     dispatched enc x @ (if encodes enc x then dispatched_items enc xs else [])"
| "dispatched_dict_items enc [] = []"
| "dispatched_dict_items enc ((k, v) # kvs) =
     (if in_symbol_table enc k
      then dispatched enc v @ (if encodes enc v then dispatched_dict_items enc kvs else [])
      else [])"

text \<open>The map keys looked up with \<^verbatim>\<open>self.symbol_map[k]\<close> while \<open>obj\<close> is encoded, in the
  order of the lookups.\<close>

fun looked_up :: "FastEncoder \<Rightarrow> pyobj \<Rightarrow> pyobj list"
  and looked_up_items :: "FastEncoder \<Rightarrow> pyobj list \<Rightarrow> pyobj list"
  and looked_up_dict_items :: "FastEncoder \<Rightarrow> (pyobj \<times> pyobj) list \<Rightarrow> pyobj list"
where
  "looked_up enc (PyList xs) = looked_up_items enc xs"
| "looked_up enc (PyTuple xs) = looked_up_items enc xs"
| "looked_up enc (PySet xs) = looked_up_items enc xs"
| "looked_up enc (PyDict kvs) = looked_up_dict_items enc kvs"
| "looked_up enc obj = []"
| "looked_up_items enc [] = []"
| "looked_up_items enc (x # xs) =
     looked_up enc x @ (if encodes enc x then looked_up_items enc xs else [])"
| "looked_up_dict_items enc [] = []"
| "looked_up_dict_items enc ((k, v) # kvs) =
     k # (if in_symbol_table enc k
          then looked_up enc v @ (if encodes enc v then looked_up_dict_items enc kvs else [])
          else [])"

section \<open>Varints and ZigZag\<close>

lemma drop_bit7_less: "(0x80 :: uint64_t) \<le> n \<Longrightarrow> unat (drop_bit 7 n) < unat n"
proof -
  assume "0x80 \<le> n"
  then have "128 \<le> unat n" by (simp add: word_le_nat_alt)
  then have "unat n div 128 < unat n" by simp
  then show ?thesis by (simp add: drop_bit_eq_div unat_div)
qed

lemma write_varint_unfold:
  "write_varint n buf =
     (if n \<ge> 0x80 then write_varint (drop_bit 7 n) (buf @ [ucast ((n AND 0x7F) OR 0x80)])
      else buf @ [ucast n])"
  by (rule write_varint.simps)

lemma write_varint_append: "write_varint n buf = buf @ write_varint n []"
proof (induction "unat n" arbitrary: n buf rule: less_induct)
  case less
  show ?case
  proof (cases "0x80 \<le> n")
    case True
    let ?b = "ucast ((n AND 0x7F) OR 0x80) :: byte"
    have lt: "unat (drop_bit 7 n) < unat n" using True by (rule drop_bit7_less)
    have "write_varint n buf = write_varint (drop_bit 7 n) (buf @ [?b])"
      using True by (subst write_varint_unfold) simp
    also have "\<dots> = (buf @ [?b]) @ write_varint (drop_bit 7 n) []"
      using less [OF lt] .
    finally have a: "write_varint n buf = buf @ ?b # write_varint (drop_bit 7 n) []" by simp
    have "write_varint n [] = write_varint (drop_bit 7 n) [?b]"
      using True by (subst write_varint_unfold) simp
    also have "\<dots> = [?b] @ write_varint (drop_bit 7 n) []"
      using less [OF lt] .
    finally show ?thesis using a by simp
  next
    case False
    then show ?thesis by (simp add: write_varint_unfold [of n])
  qed
qed

lemma varint_Cons:
  "0x80 \<le> n \<Longrightarrow> write_varint n [] = ucast ((n AND 0x7F) OR 0x80) # write_varint (drop_bit 7 n) []"
  by (subst write_varint_unfold, subst write_varint_append) simp

lemma varint_single: "\<not> 0x80 \<le> n \<Longrightarrow> write_varint n [] = [ucast n]"
  by (subst write_varint_unfold) simp

lemma bit_128_int: "bit (128 :: int) i \<longleftrightarrow> i = 7"
proof -
  have "(128 :: int) = 2 ^ 7" by simp
  then show ?thesis by (simp only: bit_exp_iff) simp
qed

lemma bit_127_int: "bit (127 :: int) i \<longleftrightarrow> i < 7"
proof -
  have "(127 :: int) = mask 7" by (simp add: mask_eq_exp_minus_1)
  then show ?thesis by (simp only: bit_mask_iff) simp
qed

lemma cont_byte_high: "(ucast ((n AND 0x7F) OR 0x80 :: uint64_t) :: byte) AND 0x80 \<noteq> 0"
proof
  assume "(ucast ((n AND 0x7F) OR 0x80 :: uint64_t) :: byte) AND 0x80 = 0"
  then have "bit ((ucast ((n AND 0x7F) OR 0x80 :: uint64_t) :: byte) AND 0x80) 7 = bit (0 :: byte) 7"
    by simp
  then show False by (simp add: bit_simps bit_128_int)
qed

lemma cont_byte_low: "(ucast ((ucast ((n AND 0x7F) OR 0x80 :: uint64_t) :: byte) AND 0x7F) :: uint64_t) = n AND 0x7F"
  by (rule bit_word_eqI) (auto simp add: bit_simps bit_128_int bit_127_int)

lemma small_bits: "\<not> 0x80 \<le> (n :: uint64_t) \<Longrightarrow> 7 \<le> i \<Longrightarrow> \<not> bit n i"
proof -
  assume a: "\<not> 0x80 \<le> n" and i: "7 \<le> i"
  from a have "n < 2 ^ 7" by simp
  then have "n AND mask 7 = n" by (rule less_mask_eq)
  then have "bit n i = bit (n AND mask 7) i" by simp
  also have "\<dots> = False" using i by (simp add: bit_simps)
  finally show ?thesis by simp
qed

lemma last_byte_high: "\<not> 0x80 \<le> (n :: uint64_t) \<Longrightarrow> (ucast n :: byte) AND 0x80 = 0"
  by (rule bit_word_eqI) (auto simp add: bit_simps bit_128_int dest: small_bits)

lemma last_byte_low: "\<not> 0x80 \<le> (n :: uint64_t) \<Longrightarrow> (ucast ((ucast n :: byte) AND 0x7F) :: uint64_t) = n"
proof (rule bit_word_eqI)
  fix i assume a: "\<not> 0x80 \<le> n"
  have "bit n i \<Longrightarrow> i < 7" using small_bits [OF a, of i] by (cases "i < 7") auto
  then show "bit (ucast ((ucast n :: byte) AND 0x7F) :: uint64_t) i = bit n i"
    by (auto simp add: bit_simps bit_127_int)
qed

lemma split7: "push_bit shift (n AND 0x7F) OR push_bit (shift + 7) (drop_bit 7 n) = push_bit shift (n :: uint64_t)"
proof (rule bit_word_eqI)
  fix i assume "i < LENGTH(64)"
  then show "bit (push_bit shift (n AND 0x7F) OR push_bit (shift + 7) (drop_bit 7 n)) i = bit (push_bit shift n) i"
    by (cases "i - shift < 7") (auto simp add: bit_simps bit_127_int)
qed


lemma drop7_bound:
  assumes "unat (w :: uint64_t) < 2 ^ (64 - 7 * k)" and "0x80 \<le> w"
  shows "7 * k + 7 \<le> 63" and "unat (drop_bit 7 w) < 2 ^ (64 - 7 * (Suc k))"
proof -
  from assms(2) have ge: "128 \<le> unat w" by (simp add: word_le_nat_alt)
  have k8: "k \<le> 8"
  proof (rule ccontr)
    assume "\<not> k \<le> 8"
    then have "64 - 7 * k \<le> 1" by simp
    then have "(2 :: nat) ^ (64 - 7 * k) \<le> 2 ^ 1" by (rule power_increasing) simp
    with assms(1) ge show False by simp
  qed
  then show "7 * k + 7 \<le> 63" by simp
  from k8 have e: "64 - 7 * k = 7 + (64 - 7 * Suc k)" by simp
  have "unat w < 128 * 2 ^ (64 - 7 * Suc k)"
    using assms(1) unfolding e power_add by simp
  then have "unat w div 128 < 2 ^ (64 - 7 * Suc k)"
    by (simp add: less_mult_imp_div_less mult.commute)
  then show "unat (drop_bit 7 w) < 2 ^ (64 - 7 * (Suc k))"
    by (simp add: drop_bit_eq_div unat_div)
qed

lemma read_written_varint:
  assumes "buffer self = pre @ write_varint w [] @ post"
    and "pos self = int (length pre)"
    and "size self = int (length (buffer self))"
    and "unat w < 2 ^ (64 - 7 * k)"
  shows "read_varint_loop self res (7 * k)
    = Inr (res OR push_bit (7 * k) w,
           self\<lparr>pos := int (length pre) + int (length (write_varint w []))\<rparr>)"
  using assms
proof (induction "unat w" arbitrary: w self pre res k rule: less_induct)
  case less
  show ?case
  proof (cases "0x80 \<le> w")
    case True
    let ?b = "ucast ((w AND 0x7F) OR 0x80) :: byte"
    let ?w' = "drop_bit 7 w"
    let ?self' = "self\<lparr>pos := pos self + 1\<rparr>"
    have vc: "write_varint w [] = ?b # write_varint ?w' []" using True by (rule varint_Cons)
    have buf: "buffer self = pre @ ?b # (write_varint ?w' [] @ post)"
      using less.prems(1) vc by simp
    have at: "buffer_at self (pos self) = Inr ?b"
      using less.prems(2,3) buf by (simp add: buffer_at_def)
    have nend: "\<not> pos self \<ge> size self" using less.prems(2,3) buf by simp
    from drop7_bound [OF less.prems(4) True]
    have sh: "7 * k + 7 \<le> 63" and bd: "unat ?w' < 2 ^ (64 - 7 * Suc k)" by simp_all
    have lt: "unat ?w' < unat w" using True by (rule drop_bit7_less)
    have ih: "read_varint_loop ?self' (res OR push_bit (7 * k) (w AND 0x7F)) (7 * Suc k)
        = Inr ((res OR push_bit (7 * k) (w AND 0x7F)) OR push_bit (7 * Suc k) ?w',
               ?self'\<lparr>pos := int (length (pre @ [?b])) + int (length (write_varint ?w' []))\<rparr>)"
      by (rule less.hyps [OF lt _ _ _ bd]) (use buf less.prems in simp_all)
    have "read_varint_loop self res (7 * k)
        = read_varint_loop ?self' (res OR push_bit (7 * k) (w AND 0x7F)) (7 * k + 7)"
      using at nend sh cont_byte_high [of w] cont_byte_low [of w]
      by (subst read_varint_loop.simps) simp
    also have "\<dots> = Inr ((res OR push_bit (7 * k) (w AND 0x7F)) OR push_bit (7 * k + 7) ?w',
               ?self'\<lparr>pos := int (length (pre @ [?b])) + int (length (write_varint ?w' []))\<rparr>)"
      using ih by (simp add: add.commute)
    finally show ?thesis
      using split7 [of "7 * k" w] vc by (simp add: or.assoc)
  next
    case False
    have vs: "write_varint w [] = [ucast w]" using False by (rule varint_single)
    have buf: "buffer self = pre @ ucast w # post"
      using less.prems(1) vs by simp
    have at: "buffer_at self (pos self) = Inr (ucast w)"
      using less.prems(2,3) buf by (simp add: buffer_at_def)
    have nend: "\<not> pos self \<ge> size self" using less.prems(2,3) buf by simp
    show ?thesis
      using at nend last_byte_high [OF False] last_byte_low [OF False] vs less.prems(2)
      by (subst read_varint_loop.simps) simp
  qed
qed

lemma read_varint_written:
  assumes "buffer self = pre @ write_varint w [] @ post"
    and "pos self = int (length pre)"
    and "size self = int (length (buffer self))"
  shows "read_varint self
    = Inr (w, self\<lparr>pos := int (length pre) + int (length (write_varint w []))\<rparr>)"
proof -
  have "unat w < 2 ^ (64 - 7 * 0)" using unsigned_less [of w] by simp
  from read_written_varint [OF assms this, of 0] show ?thesis
    by (simp add: read_varint_def)
qed


lemma neg_of_bool_bit: "bit (- (of_bool b) :: 64 word) i \<longleftrightarrow> b \<and> i < 64"
  by (cases b) (simp_all add: bit_simps)

lemma bit_times2_Suc: "bit (n * 2 :: 64 word) (Suc i) \<longleftrightarrow> i < 63 \<and> bit n i"
  using bit_double_Suc_iff [of n i] by (auto simp add: mult.commute possible_bit_word)

lemma not_bit_beyond: "64 \<le> k \<Longrightarrow> \<not> bit (n :: 64 word) k"
  by (auto dest: bit_imp_le_length)

lemma zigzag_decode_encode: "c_zigzag_decode (c_zigzag_encode n) = n"
proof (rule bit_word_eqI)
  fix i assume "i < LENGTH(64)"
  then have i: "i < 64" by simp
  let ?u = "c_zigzag_encode n"
  have odd: "?u AND 1 = of_bool (bit n 63)"
  proof -
    have "bit (signed_drop_bit 63 n) 0 \<longleftrightarrow> bit n 63"
      by (simp add: bit_signed_drop_bit_iff del: bit_0)
    then have "even (signed_drop_bit 63 n) \<longleftrightarrow> \<not> bit n 63"
      unfolding bit_0 by blast
    then show ?thesis
      by (simp add: c_zigzag_encode_def and_one_eq even_xor_iff mod2_eq_if)
  qed
  show "bit (c_zigzag_decode ?u) i = bit n i"
    unfolding c_zigzag_decode_def odd
    using i by (cases "i = 63")
      (auto simp add: c_zigzag_encode_def bit_simps neg_of_bool_bit bit_times2_Suc not_bit_beyond)
qed

lemma sint_word_of_int_64:
  "- (2 ^ 63) \<le> n \<Longrightarrow> n < 2 ^ 63 \<Longrightarrow> sint (word_of_int n :: 64 word) = n"
  by (simp add: sint_sbintrunc' signed_take_bit_int_eq_self)

lemma ssize_wrap_id: "- (2 ^ 63) \<le> x \<Longrightarrow> x < 2 ^ 63 \<Longrightarrow> ssize_wrap x = x"
  by (simp add: ssize_wrap_def sint_word_of_int_64)

lemma decode_loop_Done: "decode_step self stack = Done r \<Longrightarrow> decode_loop self stack = Some r"
  by (subst decode_loop.simps) simp

lemma decode_loop_Next:
  "decode_step self stack = Next self' stack' \<Longrightarrow> decode_loop self stack = decode_loop self' stack'"
  by (subst decode_loop.simps) simp

lemma varint_length:
  "unat w < 2 ^ (64 - 7 * k) \<Longrightarrow> k \<le> 9 \<Longrightarrow> length (write_varint w []) + k \<le> 10"
proof (induction "unat w" arbitrary: w k rule: less_induct)
  case less
  show ?case
  proof (cases "0x80 \<le> w")
    case True
    from drop7_bound [OF less.prems(1) True]
    have sh: "7 * k + 7 \<le> 63" and bd: "unat (drop_bit 7 w) < 2 ^ (64 - 7 * Suc k)" by simp_all
    from sh have "Suc k \<le> 9" by simp
    with drop_bit7_less [OF True] bd have "length (write_varint (drop_bit 7 w) []) + Suc k \<le> 10"
      by (rule less.hyps)
    then show ?thesis using varint_Cons [OF True] by simp
  next
    case False
    then show ?thesis using varint_single [OF False] less.prems(2) by simp
  qed
qed

lemma varint_length_le: "length (write_varint w []) \<le> 10"
proof -
  have "unat w < 2 ^ (64 - 7 * 0)" using unsigned_less [of w] by simp
  from varint_length [OF this] show ?thesis by simp
qed

lemma sint_of_nat_64: "n < 2 ^ 63 \<Longrightarrow> sint (of_nat n :: 64 word) = int n"
proof -
  assume "n < 2 ^ 63"
  then have "int n < 2 ^ 63" by (metis of_nat_less_iff of_nat_numeral of_nat_power)
  then have "sint (word_of_int (int n) :: 64 word) = int n"
    by (intro sint_word_of_int_64) simp_all
  then show ?thesis by simp
qed

lemma py_slice_tail:
  "py_slice (pre @ bs) (int (length pre)) (int (length pre) + int (length bs)) = bs"
  by (simp add: py_slice_def slice_bound_def Let_def)

section \<open>Doubles at work\<close>

lemma timestamp_ms_examples:
  "timestamp_ms 1001000 = 1000 \<and> timestamp_ms 1000 = 1 \<and> timestamp_ms (- 1000) = - 1
   \<and> timestamp_ms 1005000 = 1004 \<and> timestamp_ms 253402300799999000 = 253402300799999"
  by code_simp

lemma datetime_fromtimestamp_ms_examples:
  "datetime_fromtimestamp_ms 1 = Inr (PyDatetime 1000)
   \<and> datetime_fromtimestamp_ms 253402300799999 = Inr (PyDatetime 253402300799998993)
   \<and> datetime_fromtimestamp_ms 253402300800000 = Inl (ValueError ''year is out of range'')"
  by code_simp

section \<open>The loop returns\<close>

lemma opened_stack:
  "decode_value self [] = Next self' stack' \<Longrightarrow> stack' \<noteq> []"
  by (auto simp add: decode_value_def install_def open_container_def Let_def
      split: sum.splits if_splits prod.splits option.splits)

lemma decode_all_returns: "\<exists>r. decode_all self = Some r"
proof (cases "decode_step self []")
  case (Done r)
  then show ?thesis unfolding decode_all_def by (auto dest: decode_loop_Done)
next
  case (Next self' stack')
  then have "stack' \<noteq> []" by (auto simp add: decode_step_def dest: opened_stack)
  then have "decode_step self' stack' = Done (Inl OutOfBoundsRead)" by (simp add: decode_step_def)
  then have "decode_loop self' stack' = Some (Inl OutOfBoundsRead)" by (rule decode_loop_Done)
  with decode_loop_Next [OF Next] show ?thesis unfolding decode_all_def by simp
qed

section \<open>Failures of the encoder\<close>

lemma list_item_before_first: "list_item xs (- 1) = Inl OutOfBoundsRead"
  by (simp add: list_item_def)

lemma write_varint_shift: "write_varint n (buf @ xs) = buf @ write_varint n xs"
  by (metis append_assoc write_varint_append)

lemma symbol_index_present:
  "in_symbol_table enc k \<Longrightarrow> \<exists>i. symbol_index enc k = Inr i"
  by (cases k) (auto simp add: in_symbol_table_def symbol_index_def)

lemma symbol_index_absent:
  "\<not> in_symbol_table enc k \<Longrightarrow> symbol_index enc k = Inl (KeyError k)"
  by (cases k) (auto simp add: in_symbol_table_def symbol_index_def)

lemma encode_buffer:
  "encode_recursive enc obj buf
     = (case encode_recursive enc obj [] of Inl e \<Rightarrow> Inl e | Inr bs \<Rightarrow> Inr (buf @ bs))"
  "encode_items enc xs buf
     = (case encode_items enc xs [] of Inl e \<Rightarrow> Inl e | Inr bs \<Rightarrow> Inr (buf @ bs))"
  "encode_dict_items enc kvs buf
     = (case encode_dict_items enc kvs [] of Inl e \<Rightarrow> Inl e | Inr bs \<Rightarrow> Inr (buf @ bs))"
proof (induction obj and xs and kvs arbitrary: buf and buf and buf
    rule: reached_reached_items_reached_dict_items.induct)
  case (1 xs)
  from "1.IH" [of "write_varint (of_nat (length xs)) (buf @ [6])"]
    "1.IH" [of "write_varint (of_nat (length xs)) [6]"]
  show ?case by (simp add: write_varint_shift split: sum.splits)
next
  case (2 xs)
  from "2.IH" [of "write_varint (of_nat (length xs)) (buf @ [13])"]
    "2.IH" [of "write_varint (of_nat (length xs)) [13]"]
  show ?case by (simp add: write_varint_shift split: sum.splits)
next
  case (3 xs)
  from "3.IH" [of "write_varint (of_nat (length xs)) (buf @ [12])"]
    "3.IH" [of "write_varint (of_nat (length xs)) [12]"]
  show ?case by (simp add: write_varint_shift split: sum.splits)
next
  case (4 kvs)
  from "4.IH" [of "write_varint (of_nat (length kvs)) (buf @ [7])"]
    "4.IH" [of "write_varint (of_nat (length kvs)) [7]"]
  show ?case by (simp add: write_varint_shift split: sum.splits)
next
  case (7 x xs)
  show ?case
  proof (cases "encode_recursive enc x []")
    case (Inl e)
    with "7.IH"(1) [of buf] show ?thesis by simp
  next
    case (Inr bs)
    with "7.IH"(1) [of buf] "7.IH"(2) [of "buf @ bs"] "7.IH"(2) [of bs]
    show ?thesis by (simp split: sum.splits)
  qed
next
  case (9 k v kvs)
  show ?case
  proof (cases "symbol_index enc k")
    case (Inl e)
    then show ?thesis by simp
  next
    case (Inr i)
    let ?b = "write_varint (of_nat i) (buf @ [8])"
    let ?c = "write_varint (of_nat i) [8]"
    show ?thesis
    proof (cases "encode_recursive enc v []")
      case (Inl e)
      with "9.IH"(1) [of ?b] "9.IH"(1) [of ?c] Inr show ?thesis by simp
    next
      case r: (Inr bs)
      with "9.IH"(1) [of ?b] "9.IH"(1) [of ?c] Inr
        "9.IH"(2) [of "?b @ bs"] "9.IH"(2) [of "?c @ bs"]
      show ?thesis by (simp add: write_varint_shift split: sum.splits)
    qed
  qed
qed (auto simp add: write_varint_shift split: sum.splits option.splits)

lemma encodes_Inr: "encodes enc x \<longleftrightarrow> (\<exists>bs. encode_recursive enc x buf = Inr bs)"
  using encode_buffer(1) [of enc x buf] by (auto simp add: encodes_def split: sum.splits)

lemma not_encodes_Inl: "\<not> encodes enc x \<longleftrightarrow> (\<exists>e. encode_recursive enc x buf = Inl e)"
  using encodes_Inr [of enc x buf] by (cases "encode_recursive enc x buf") auto

lemma lens_error_dispatched:
  "encode_recursive enc obj buf = Inl (LensEncodeError m)
     \<longleftrightarrow> m = ''Unsupported type''
         \<and> (\<exists>x\<in>set (dispatched enc obj). fallthrough x \<and> no_ext_match enc x)"
  "encode_items enc xs buf = Inl (LensEncodeError m)
     \<longleftrightarrow> m = ''Unsupported type''
         \<and> (\<exists>x\<in>set (dispatched_items enc xs). fallthrough x \<and> no_ext_match enc x)"
  "encode_dict_items enc kvs buf = Inl (LensEncodeError m)
     \<longleftrightarrow> m = ''Unsupported type''
         \<and> (\<exists>x\<in>set (dispatched_dict_items enc kvs). fallthrough x \<and> no_ext_match enc x)"
proof (induction obj and xs and kvs arbitrary: buf and buf and buf
    rule: reached_reached_items_reached_dict_items.induct)
  case (7 x xs)
  show ?case
  proof (cases "encode_recursive enc x buf")
    case (Inl e)
    then have "\<not> encodes enc x" using not_encodes_Inl [of enc x buf] by simp
    with Inl "7.IH"(1) [of buf] show ?thesis by simp
  next
    case (Inr b)
    then have "encodes enc x" using encodes_Inr [of enc x buf] by simp
    with Inr "7.IH"(1) [of buf] "7.IH"(2) [of b] show ?thesis by auto
  qed
next
  case (9 k v kvs)
  show ?case
  proof (cases "in_symbol_table enc k")
    case False
    then show ?thesis by (simp add: symbol_index_absent)
  next
    case True
    then obtain i where i: "symbol_index enc k = Inr i"
      using symbol_index_present by blast
    let ?b = "write_varint (of_nat i) (buf @ [8])"
    show ?thesis
    proof (cases "encode_recursive enc v ?b")
      case (Inl e)
      then have "\<not> encodes enc v" using not_encodes_Inl [of enc v ?b] by simp
      with Inl True i "9.IH"(1) [of ?b] show ?thesis by simp
    next
      case (Inr b)
      then have "encodes enc v" using encodes_Inr [of enc v ?b] by simp
      with Inr True i "9.IH"(1) [of ?b] "9.IH"(2) [of b] show ?thesis by auto
    qed
  qed
qed (auto simp add: no_ext_match_def to_int64_def to_uint64_def
       split: sum.splits option.splits if_splits)

lemma key_error_looked_up:
  "encode_recursive enc obj buf = Inl (KeyError k)
     \<longleftrightarrow> k \<in> set (looked_up enc obj) \<and> \<not> in_symbol_table enc k"
  "encode_items enc xs buf = Inl (KeyError k)
     \<longleftrightarrow> k \<in> set (looked_up_items enc xs) \<and> \<not> in_symbol_table enc k"
  "encode_dict_items enc kvs buf = Inl (KeyError k)
     \<longleftrightarrow> k \<in> set (looked_up_dict_items enc kvs) \<and> \<not> in_symbol_table enc k"
proof (induction obj and xs and kvs arbitrary: buf and buf and buf
    rule: reached_reached_items_reached_dict_items.induct)
  case (7 x xs)
  show ?case
  proof (cases "encode_recursive enc x buf")
    case (Inl e)
    then have "\<not> encodes enc x" using not_encodes_Inl [of enc x buf] by simp
    with Inl "7.IH"(1) [of buf] show ?thesis by simp
  next
    case (Inr b)
    then have "encodes enc x" using encodes_Inr [of enc x buf] by simp
    with Inr "7.IH"(1) [of buf] "7.IH"(2) [of b] show ?thesis by auto
  qed
next
  case (9 k' v kvs)
  show ?case
  proof (cases "in_symbol_table enc k'")
    case False
    then show ?thesis by (auto simp add: symbol_index_absent)
  next
    case True
    then obtain i where i: "symbol_index enc k' = Inr i"
      using symbol_index_present by blast
    let ?b = "write_varint (of_nat i) (buf @ [8])"
    show ?thesis
    proof (cases "encode_recursive enc v ?b")
      case (Inl e)
      then have "\<not> encodes enc v" using not_encodes_Inl [of enc v ?b] by simp
      with Inl True i "9.IH"(1) [of ?b] show ?thesis by auto
    next
      case (Inr b)
      then have "encodes enc v" using encodes_Inr [of enc v ?b] by simp
      with Inr True i "9.IH"(1) [of ?b] "9.IH"(2) [of b] show ?thesis by auto
    qed
  qed
qed (auto simp add: to_int64_def to_uint64_def split: sum.splits option.splits if_splits)

lemma foreign_key_fails:
  "\<exists>x\<in>set (reached obj). has_foreign_key enc x \<Longrightarrow> \<exists>e. encode_recursive enc obj buf = Inl e"
  "\<exists>x\<in>set (reached_items xs). has_foreign_key enc x \<Longrightarrow> \<exists>e. encode_items enc xs buf = Inl e"
  "(\<exists>k\<in>set (map fst kvs). \<not> in_symbol_table enc k)
     \<or> (\<exists>x\<in>set (reached_dict_items kvs). has_foreign_key enc x)
     \<Longrightarrow> \<exists>e. encode_dict_items enc kvs buf = Inl e"
proof (induction obj and xs and kvs arbitrary: buf and buf and buf
    rule: reached_reached_items_reached_dict_items.induct)
  case (1 xs)
  then show ?case by (simp add: has_foreign_key_def)
next
  case (2 xs)
  then show ?case by (simp add: has_foreign_key_def)
next
  case (3 xs)
  then show ?case by (simp add: has_foreign_key_def)
next
  case (4 kvs)
  then show ?case by (simp add: has_foreign_key_def)
next
  case (7 x xs)
  show ?case
  proof (cases "encode_recursive enc x buf")
    case (Inl e)
    then show ?thesis by simp
  next
    case (Inr b)
    with "7.IH"(1) [of buf] have "\<not> (\<exists>y\<in>set (reached x). has_foreign_key enc y)" by auto
    with "7.prems" have "\<exists>y\<in>set (reached_items xs). has_foreign_key enc y" by auto
    from "7.IH"(2) [OF this, of b] Inr show ?thesis by simp
  qed
next
  case (9 k v kvs)
  show ?case
  proof (cases "symbol_index enc k")
    case (Inl e)
    then show ?thesis by simp
  next
    case (Inr i)
    then have k: "in_symbol_table enc k" using symbol_index_absent [of enc k] by auto
    let ?b = "write_varint (of_nat i) (buf @ [8])"
    show ?thesis
    proof (cases "encode_recursive enc v ?b")
      case (Inl e)
      with Inr show ?thesis by simp
    next
      case r: (Inr b)
      with "9.IH"(1) [of ?b] have "\<not> (\<exists>y\<in>set (reached v). has_foreign_key enc y)" by auto
      with "9.prems" k have "(\<exists>k\<in>set (map fst kvs). \<not> in_symbol_table enc k)
          \<or> (\<exists>x\<in>set (reached_dict_items kvs). has_foreign_key enc x)" by auto
      from "9.IH"(2) [OF this, of b] Inr r show ?thesis by simp
    qed
  qed
qed (auto simp add: has_foreign_key_def)


section \<open>Seed scenario\<close>

text \<open>
  C9. With the symbol table \<open>["id", "name"]\<close> the map \<open>{"id": 7, "name": "x"}\<close> encodes
  to the eleven bytes 07 02 08 00 03 0E 08 01 05 01 78: each key a bare SYMREF tag and
  varint index, its value right after. Decoding those bytes does not yield the map: the
  first turn of the loop pushes the frame of the map, and the second turn starts with
  \<^verbatim>\<open>frame = stack[-1]\<close>, an unchecked read outside the stack.
\<close>

theorem seed_map_eleven_bytes_not_decoded:
  "lens_encode (PyDict [(PyStr ''id'', PyInt 7), (PyStr ''name'', PyStr ''x'')]) [''id'', ''name'']
     = Inr [0x07, 0x02, 0x08, 0x00, 0x03, 0x0E, 0x08, 0x01, 0x05, 0x01, 0x78]
   \<and> lens_decode [0x07, 0x02, 0x08, 0x00, 0x03, 0x0E, 0x08, 0x01, 0x05, 0x01, 0x78] [''id'', ''name'']
     = Some (Inl OutOfBoundsRead)"
  by code_simp

section \<open>Where the decoder departs from the specification\<close>

text \<open>
  C2. Not every read is guarded, and the end of the input inside a value is not always
  reported as a truncated input. On \<open>07 01\<close> (a map of one entry, then the end of the
  input) the call ends in an unchecked read outside the object it indexes, not in a
  decode error. The payload of an extension is sliced with no test of its length: on
  \<open>0B 00 05 41\<close> (five bytes announced, one present) the call returns the pair with the
  one byte instead of failing as truncated.
\<close>

theorem unguarded_reads:
  "lens_decode [0x07, 0x01] [] = Some (Inl OutOfBoundsRead)
   \<and> lens_decode [0x0B, 0x00, 0x05, 0x41] []
       = Some (Inr (PyTuple [PyInt 0, PyMemoryView [0x41]]))"
  by code_simp

text \<open>
  C3. A ten-byte varint whose last byte carries bits above bit 63 is not rejected: the
  integer \<open>03 80 80 80 80 80 80 80 80 80 02\<close> (a varint of value \<open>2 ^ 64\<close>) decodes to
  0, the bits shifted out. The pointer-based reader rejects the same varint as an
  overflow.
\<close>

theorem varint_overflow_accepted:
  "lens_decode [0x03, 0x80, 0x80, 0x80, 0x80, 0x80, 0x80, 0x80, 0x80, 0x80, 0x02] []
     = Some (Inr (PyInt 0))
   \<and> read_varint_ptr [0x80, 0x80, 0x80, 0x80, 0x80, 0x80, 0x80, 0x80, 0x80, 0x02] 0 0
     = Inl (ValueError ''Varint overflow'')"
  by code_simp

text \<open>
  C4. Decoding does not return the value of an encoding nested deeper than the pool:
  \<open>deep_value\<close> encodes to \<open>deep_bytes\<close>, and \<^verbatim>\<open>decode_all\<close> ends on them in the unchecked
  read of \<^verbatim>\<open>stack[-1]\<close>. And the bookkeeping of the pool hands out a frame that is on the
  stack: after 33 pushes the stack holds \<^verbatim>\<open>frame_pool[0]\<close> to \<^verbatim>\<open>frame_pool[31]\<close> and one
  frame made past the pool, with \<^verbatim>\<open>pool_idx\<close> at 32; the pop of that last frame brings
  \<^verbatim>\<open>pool_idx\<close> down to 31 although the pool gave 32 frames that are all still on the
  stack; the next \<^verbatim>\<open>_push_frame\<close> returns \<^verbatim>\<open>frame_pool[31]\<close>, which is on the stack, and
  resets it, so that the container it held is lost.
\<close>

theorem pooled_frame_handed_out_while_open:
  "lens_encode deep_value [''k''] = Inr deep_bytes
   \<and> lens_decode deep_bytes [''k''] = Some (Inl OutOfBoundsRead)
   \<and> (case open_frames 33 (FastDecoder_init deep_bytes [''k''] False None None) [] of
        (self, stack) \<Rightarrow>
          stack = [0..<33] \<and> pool_idx self = 32
          \<and> (case pop_frame self stack of
               (self1, stack1) \<Rightarrow>
                 stack1 = [0..<32] \<and> pool_idx self1 = 31
                 \<and> (case push_frame self1 (PyDict []) 1 True of
                      (f, self2) \<Rightarrow>
                        f = 31 \<and> f \<in> set stack1
                        \<and> frame_store self1 ! 31 = reset (PyList [PyNULL]) 1 False
                        \<and> frame_store self2 ! 31 = reset (PyDict []) 1 True)))"
  by code_simp

text \<open>
  C5. A negative millisecond count does not reach the hook as a signed value. \<open>0A 01\<close>
  is the encoding of the instant one millisecond before the epoch; the decoder holds
  the decoded count in a \<^verbatim>\<open>uint64_t\<close>, so the hook receives \<open>2 ^ 64 - 1\<close>, and without a
  hook the conversion to an instant fails.
\<close>

theorem negative_timestamp_unsigned:
  "lens_encode (PyDatetime (- 1000)) [] = Inr [0x0A, 0x01]
   \<and> decode_all (FastDecoder_init [0x0A, 0x01] [] False None (Some (\<lambda>ms. Inr (PyInt ms))))
       = Some (Inr (PyInt 18446744073709551615))
   \<and> lens_decode [0x0A, 0x01] [] = Some (Inl (ValueError ''year is out of range''))"
  by code_simp

text \<open>
  C6. A symbol index is not compared with the length of the symbol table, neither for
  a SYMREF value (\<open>08 00\<close> with an empty table) nor for a map key (\<open>07 01 08 05 00\<close>
  with a table of one symbol): the call ends in an unchecked read outside the object
  it indexes, and no decode error is raised.
\<close>

theorem symbol_index_unchecked:
  "lens_decode [0x08, 0x00] [] = Some (Inl OutOfBoundsRead)
   \<and> lens_decode [0x07, 0x01, 0x08, 0x05, 0x00] [''a''] = Some (Inl OutOfBoundsRead)"
  by code_simp

text \<open>
  C1. The round trip fails on supported values. A list of one element encodes, and
  decoding the bytes ends in the unchecked read of \<^verbatim>\<open>stack[-1]\<close>; so does every value
  for which a frame is pushed. A byte string encodes, and decoding the bytes raises
  \<^verbatim>\<open>AttributeError\<close> (\<^verbatim>\<open>.tobytes()\<close> on a Cython memoryview). A set encodes, and decoding
  the bytes raises \<^verbatim>\<open>TypeError\<close> (\<^verbatim>\<open>PySet_New(None)\<close>).
\<close>

theorem roundtrip_fails:
  "lens_encode (PyList [PyNone]) [] = Inr [0x06, 0x01, 0x00]
   \<and> lens_decode [0x06, 0x01, 0x00] [] = Some (Inl OutOfBoundsRead)
   \<and> lens_encode (PyBytes [0x41, 0x42]) [] = Inr [0x09, 0x02, 0x41, 0x42]
   \<and> lens_decode [0x09, 0x02, 0x41, 0x42] [] = Some (Inl AttributeError)
   \<and> lens_encode (PySet [PyInt 1]) [] = Inr [0x0C, 0x01, 0x03, 0x02]
   \<and> lens_decode [0x0C, 0x01, 0x03, 0x02] [] = Some (Inl TypeError)"
  by code_simp

section \<open>Integers\<close>

text \<open>
  C8. Integer exactness: every integer of the signed 64-bit range encodes, whatever the
  symbol table, to the INT tag and the varint of its ZigZag image
  \<^verbatim>\<open>(n << 1) ^ (n >> 63)\<close>, and those bytes decode to the same integer.
\<close>

theorem integer_exactness:
  assumes "- (2 ^ 63) \<le> n" and "n < 2 ^ 63"
  shows "lens_encode (PyInt n) S
           = Inr (write_varint (c_zigzag_encode (word_of_int n)) [T_INT])
       \<and> lens_decode (write_varint (c_zigzag_encode (word_of_int n)) [T_INT]) S
           = Some (Inr (PyInt n))"
proof
  show "lens_encode (PyInt n) S = Inr (write_varint (c_zigzag_encode (word_of_int n)) [T_INT])"
    using assms by (simp add: lens_encode_def encode_def to_int64_def)
next
  let ?z = "c_zigzag_encode (word_of_int n) :: uint64_t"
  let ?bs = "write_varint ?z [3]"
  let ?self0 = "FastDecoder_init ?bs S False None None"
  let ?self1 = "?self0\<lparr>pos := pos ?self0 + 1\<rparr>"
  have bs: "?bs = [3] @ write_varint ?z [] @ []"
    by (simp add: write_varint_append [of _ "[3]"])
  have rv: "read_varint ?self1
      = Inr (?z, ?self1\<lparr>pos := int (length [3 :: byte]) + int (length (write_varint ?z []))\<rparr>)"
    by (rule read_varint_written [where post = "[]"]) (simp_all add: FastDecoder_init_def bs)
  have at: "buffer_at ?self0 (pos ?self0) = Inr 3"
    by (simp add: buffer_at_def FastDecoder_init_def bs)
  have ne: "\<not> pos ?self0 \<ge> size ?self0"
    by (simp add: FastDecoder_init_def bs)
  have val: "sint (c_zigzag_decode ?z) = n"
    using assms by (simp add: zigzag_decode_encode sint_word_of_int_64)
  have "decode_step ?self0 [] = Done (Inr (PyInt n))"
    using at ne rv val by (simp add: decode_step_def decode_value_def install_def Let_def)
  then have "lens_decode ?bs S = Some (Inr (PyInt n))"
    unfolding lens_decode_def decode_all_def by (rule decode_loop_Done)
  then show "lens_decode (write_varint ?z [T_INT]) S = Some (Inr (PyInt n))"
    by simp
qed

text \<open>The same at \<open>n = -1\<close>: the bytes are 03 01.\<close>

theorem integer_exactness_witness:
  "lens_encode (PyInt (- 1)) [] = Inr [0x03, 0x01]
   \<and> lens_decode [0x03, 0x01] [] = Some (Inr (PyInt (- 1)))"
proof -
  have b: "write_varint (c_zigzag_encode (word_of_int (- 1))) [T_INT] = [0x03, 0x01]"
    by code_simp
  have "- (2 ^ 63) \<le> (- 1 :: int)" and "(- 1 :: int) < 2 ^ 63" by simp_all
  from integer_exactness [OF this, of "[]"] show ?thesis
    unfolding b .
qed

section \<open>Byte strings\<close>

text \<open>
  C10. A bytearray is accepted and encoded as the equal bytes object is: BYTES tag,
  varint length, payload. Decoding those bytes does not give an immutable bytes
  object: with \<^verbatim>\<open>zero_copy\<close> on the result is a memoryview of the payload, with
  \<^verbatim>\<open>zero_copy\<close> off the call raises \<^verbatim>\<open>AttributeError\<close>, because \<^verbatim>\<open>.tobytes()\<close> is looked up
  on a Cython memoryview. The bound on the length is one every Python byte string
  meets.
\<close>

theorem bytearray_encoded_as_bytes_decode_raises:
  assumes "length bs < 2 ^ 62"
  shows "encode enc (PyByteArray bs) = encode enc (PyBytes bs)
    \<and> encode enc (PyByteArray bs) = Inr (write_varint (of_nat (length bs)) [T_BYTES] @ bs)
    \<and> decode_all (FastDecoder_init (write_varint (of_nat (length bs)) [T_BYTES] @ bs) S zc eh th)
        = Some (if zc then Inr (PyMemoryView bs) else Inl AttributeError)"
proof (intro conjI)
  show "encode enc (PyByteArray bs) = encode enc (PyBytes bs)"
    by (simp add: encode_def)
  show "encode enc (PyByteArray bs) = Inr (write_varint (of_nat (length bs)) [T_BYTES] @ bs)"
    by (simp add: encode_def)
  let ?n = "of_nat (length bs) :: uint64_t"
  let ?v = "write_varint ?n []"
  let ?data = "write_varint ?n [9] @ bs"
  let ?self0 = "FastDecoder_init ?data S zc eh th"
  let ?self1 = "?self0\<lparr>pos := pos ?self0 + 1\<rparr>"
  let ?self2 = "?self1\<lparr>pos := int (length [9 :: byte]) + int (length ?v)\<rparr>"
  have data: "?data = [9] @ ?v @ bs"
    by (simp add: write_varint_append [of _ "[9]"])
  have rv: "read_varint ?self1 = Inr (?n, ?self2)"
    by (rule read_varint_written [where post = bs]) (simp_all add: FastDecoder_init_def data)
  have at: "buffer_at ?self0 (pos ?self0) = Inr 9"
    by (simp add: buffer_at_def FastDecoder_init_def data)
  have ne: "\<not> pos ?self0 \<ge> size ?self0"
    by (simp add: FastDecoder_init_def data)
  have len: "int (length bs) < 2 ^ 62"
    using assms by (metis of_nat_less_iff of_nat_numeral of_nat_power)
  have ln: "sint ?n = int (length bs)"
    using assms by (intro sint_of_nat_64) (simp add: less_trans [where y = "2 ^ 62"])
  have v10: "int (length ?v) \<le> 10" using varint_length_le [of ?n] by simp
  have wrap: "ssize_wrap (1 + int (length ?v) + int (length bs)) = 1 + int (length ?v) + int (length bs)"
    using len v10 by (intro ssize_wrap_id) simp_all
  have sl: "py_slice ?data (1 + int (length ?v)) (1 + int (length ?v) + int (length bs)) = bs"
    using py_slice_tail [of "[9] @ ?v" bs] data by simp
  have "decode_step ?self0 [] = Done (if zc then Inr (PyMemoryView bs) else Inl AttributeError)"
    using at ne rv ln wrap sl
    by (simp add: decode_step_def decode_value_def install_def Let_def FastDecoder_init_def data add.assoc)
  then have "decode_all ?self0 = Some (if zc then Inr (PyMemoryView bs) else Inl AttributeError)"
    unfolding decode_all_def by (rule decode_loop_Done)
  then show "decode_all (FastDecoder_init (write_varint (of_nat (length bs)) [T_BYTES] @ bs) S zc eh th)
        = Some (if zc then Inr (PyMemoryView bs) else Inl AttributeError)"
    by simp
qed

text \<open>The same at the two-byte bytearray \<open>41 42\<close>, decoded with the defaults.\<close>

theorem bytearray_encoded_as_bytes_decode_raises_witness:
  "encode (FastEncoder_init [] None) (PyByteArray [0x41, 0x42])
     = encode (FastEncoder_init [] None) (PyBytes [0x41, 0x42])
   \<and> encode (FastEncoder_init [] None) (PyByteArray [0x41, 0x42]) = Inr [0x09, 0x02, 0x41, 0x42]
   \<and> lens_decode [0x09, 0x02, 0x41, 0x42] [] = Some (Inl AttributeError)"
proof -
  have b: "write_varint (of_nat (length [0x41, 0x42 :: byte])) [T_BYTES] @ [0x41, 0x42]
      = [0x09, 0x02, 0x41, 0x42]"
    by code_simp
  have "length [0x41, 0x42 :: byte] < 2 ^ 62" by simp
  from bytearray_encoded_as_bytes_decode_raises
    [OF this, of "FastEncoder_init [] None" "[]" False None None]
  show ?thesis
    unfolding b lens_decode_def by auto
qed

section \<open>Encode errors\<close>

text \<open>
  C7, as the code has it. A map key that is not a string of the symbol table does not
  raise a \<^verbatim>\<open>LensEncodeError\<close>: \<^verbatim>\<open>self.symbol_map[k]\<close> raises the host's \<^verbatim>\<open>KeyError\<close>.
\<close>

theorem unknown_symbol_is_KeyError:
  "lens_encode (PyDict [(PyStr ''a'', PyNone)]) [] = Inl (KeyError (PyStr ''a''))"
  by code_simp

text \<open>
  C7, amended. For every encoder, object and buffer: (1) encoding fails with a
  \<^verbatim>\<open>LensEncodeError\<close> exactly when type dispatch reaches an object that falls through
  with no extension match, and the error is then the unsupported-type one; (2) encoding
  fails with the \<^verbatim>\<open>KeyError\<close> of a key exactly when the key is looked up as a map key
  and is not a string present in the symbol table; (3) when a map anywhere inside the
  object has a key that is not a string present in the symbol table, encoding fails.
\<close>

theorem encode_failures:
  "(encode_recursive enc obj buf = Inl (LensEncodeError m)
      \<longleftrightarrow> m = ''Unsupported type''
          \<and> (\<exists>x\<in>set (dispatched enc obj). fallthrough x \<and> no_ext_match enc x))
   \<and> (encode_recursive enc obj buf = Inl (KeyError k)
        \<longleftrightarrow> k \<in> set (looked_up enc obj) \<and> \<not> in_symbol_table enc k)
   \<and> ((\<exists>x\<in>set (reached obj). has_foreign_key enc x)
        \<longrightarrow> (\<exists>e. encode_recursive enc obj buf = Inl e))"
  using lens_error_dispatched(1) [of enc obj buf m] key_error_looked_up(1) [of enc obj buf k]
    foreign_key_fails(1) [of obj enc buf]
  by blast

text \<open>
  The three parts at a list of two maps with the symbol table \<open>["b"]\<close>: the first map
  holds an object of an unknown type under the key \<open>"b"\<close>, the second has the key \<open>"a"\<close>.
  Dispatch reaches the object, so the call fails with the unsupported-type error, and
  not with the \<^verbatim>\<open>KeyError\<close> of \<open>"a"\<close>, which is never looked up.
\<close>

theorem encode_failures_witness:
  "encode_recursive (FastEncoder_init [''b''] None)
       (PyList [PyDict [(PyStr ''b'', PyObject 0)], PyDict [(PyStr ''a'', PyNone)]]) []
     = Inl (LensEncodeError ''Unsupported type'')
   \<and> PyObject 0 \<in> set (dispatched (FastEncoder_init [''b''] None)
       (PyList [PyDict [(PyStr ''b'', PyObject 0)], PyDict [(PyStr ''a'', PyNone)]]))
   \<and> PyStr ''a'' \<notin> set (looked_up (FastEncoder_init [''b''] None)
       (PyList [PyDict [(PyStr ''b'', PyObject 0)], PyDict [(PyStr ''a'', PyNone)]]))
   \<and> has_foreign_key (FastEncoder_init [''b''] None) (PyDict [(PyStr ''a'', PyNone)])"
proof -
  let ?enc = "FastEncoder_init [''b''] None"
  let ?obj = "PyList [PyDict [(PyStr ''b'', PyObject 0)], PyDict [(PyStr ''a'', PyNone)]]"
  have d: "dispatched ?enc ?obj = [?obj, PyDict [(PyStr ''b'', PyObject 0)], PyObject 0]"
    by code_simp
  have f: "fallthrough (PyObject 0) \<and> no_ext_match ?enc (PyObject 0)"
    by code_simp
  have n: "\<not> in_symbol_table ?enc (PyStr ''a'')"
    by code_simp
  have h: "has_foreign_key ?enc (PyDict [(PyStr ''a'', PyNone)])"
    by code_simp
  have r: "PyDict [(PyStr ''a'', PyNone)] \<in> set (reached ?obj)"
    by simp
  from encode_failures [of ?enc ?obj "[]" "''Unsupported type''" "PyStr ''a''"] d f n h r
  show ?thesis by auto
qed


end
